theory Spec2Isabelle
  imports Main "HOL-Library.Sublist"
begin

section \<open>JavaScript values used by the agent runner\<close>

text \<open>
  An optional string (\<^verbatim>\<open>string | undefined\<close>, \<^verbatim>\<open>string | null\<close>) is a
  \<open>string option\<close>. JavaScript tests such values by truthiness: \<^verbatim>\<open>if (x)\<close> and
  \<^verbatim>\<open>x || null\<close> treat the empty string like an absent value.
\<close>

definition truthy :: "string option \<Rightarrow> bool" where
  "truthy v = (case v of None \<Rightarrow> False | Some s \<Rightarrow> s \<noteq> [])"

text \<open>\<^verbatim>\<open>x || null\<close> on an optional string.\<close>

definition or_null :: "string option \<Rightarrow> string option" where
  "or_null v = (if truthy v then v else None)"

text \<open>\<^verbatim>\<open>Array.prototype.join\<close> on an array of strings.\<close>

fun join :: "string \<Rightarrow> string list \<Rightarrow> string" where
  "join sep [] = []"
| "join sep [x] = x"
| "join sep (x # y # ys) = x @ sep @ join sep (y # ys)"

definition newline :: char where
  "newline = CHR 0x0A"

section \<open>Contract types (driver.ts)\<close>

record ContainerInput =
  prompt :: string
  sessionId :: "string option"
  groupFolder :: string
  chatJid :: string
  isMain :: bool
  isScheduledTask :: "bool option"
  assistantName :: "string option"
  agentType :: "string option"
  secrets :: "(string \<times> string) list option"

record QueryResult =
  newSessionId :: "string option"
  lastAssistantUuid :: "string option"
  closedDuringQuery :: bool

section \<open>Outbound records and the observable trace\<close>

text \<open>
  The argument of \<^verbatim>\<open>writeOutput\<close>: \<^verbatim>\<open>result\<close> is a text or null,
  \<^verbatim>\<open>newSessionId\<close> and \<^verbatim>\<open>error\<close> are a text, or undefined or left out.
\<close>

datatype out_status = Success | Error

record ContainerOutput =
  out_status :: out_status
  out_result :: "string option"
  out_newSessionId :: "string option"
  out_error :: "string option"

text \<open>
  What the process does that an observer can see, in order: a record handed to
  \<^verbatim>\<open>writeOutput\<close>, a call of \<^verbatim>\<open>driver.run\<close> with its three arguments, the
  value that call resolves with, a call of \<^verbatim>\<open>waitForIpcMessage\<close>, and
  \<^verbatim>\<open>process.exit\<close>. The \<^verbatim>\<open>log\<close> lines go to the diagnostic stream only and
  are left out.
\<close>

datatype action =
    WriteOutput ContainerOutput
  | RunCall string "string option" "string option"
  | RunReturn QueryResult
  | WaitCall
  | ProcessExit nat

section \<open>The filesystem the runner shares with the host\<close>

text \<open>
  \<open>tmp_input\<close>: the file \<^verbatim>\<open>/tmp/input.json\<close> exists; \<open>sentinel\<close>: the file
  \<^verbatim>\<open>IPC_INPUT_CLOSE_SENTINEL\<close> exists; \<open>inbox\<close>: the texts of the message files
  in \<^verbatim>\<open>IPC_INPUT_DIR\<close>, in delivery order.
\<close>

record world =
  tmp_input :: bool
  sentinel :: bool
  inbox :: "string list"

record sys =
  fs :: world
  trace :: "action list"

definition emit :: "action \<Rightarrow> sys \<Rightarrow> sys" where
  "emit a s = s\<lparr>trace := trace s @ [a]\<rparr>"

text \<open>
  Modelled from the spec: \<^verbatim>\<open>writeOutput\<close> of \<^verbatim>\<open>utils.ts\<close>, which is not among the
  sources. Every reportable event is serialised as one record on the outbound
  side-channel; the model appends the record to the trace.
\<close>

definition writeOutput :: "ContainerOutput \<Rightarrow> sys \<Rightarrow> sys" where
  "writeOutput out s = emit (WriteOutput out) s"

text \<open>
  Modelled from the spec: \<^verbatim>\<open>drainIpcInput\<close> of \<^verbatim>\<open>utils.ts\<close>. It reads and
  removes all message files now present, in delivery order, and never blocks.
\<close>

definition drainIpcInput :: "world \<Rightarrow> string list \<times> world" where
  "drainIpcInput w = (inbox w, w\<lparr>inbox := []\<rparr>)"

text \<open>
  Modelled from the spec: \<^verbatim>\<open>shouldClose\<close> of \<^verbatim>\<open>utils.ts\<close>, the non-blocking
  check for the terminate sentinel.
\<close>

definition shouldClose :: "world \<Rightarrow> bool" where
  "shouldClose w = sentinel w"

text \<open>
  What happens around the runner while it is suspended: the host writes a message
  file or the sentinel, a 500 ms timer fires, the agent SDK delivers a message,
  asks its prompt stream for the next entry, finishes or raises, and the spawned
  process writes to a pipe, closes (with its exit code, null when a signal ended it)
  or reports that it could not be started.
\<close>

datatype sdk_message =
    AssistantMsg "string option"
  | SystemMsg string string
  | ResultMsg "string option"
  | OtherMsg string

datatype event =
    HostMessage string
  | HostSentinel
  | TimerTick
  | SdkEmits sdk_message
  | SdkPulls
  | SdkDone
  | SdkThrows string
  | ProcStdout string
  | ProcStderr string
  | ProcClose "int option"
  | ProcError string

definition host_writes :: "event \<Rightarrow> world \<Rightarrow> world" where
  "host_writes e w =
     (case e of
        HostMessage m \<Rightarrow> w\<lparr>inbox := inbox w @ [m]\<rparr>
      | HostSentinel \<Rightarrow> w\<lparr>sentinel := True\<rparr>
      | _ \<Rightarrow> w)"

definition env_step :: "event \<Rightarrow> sys \<Rightarrow> sys" where
  "env_step e s = s\<lparr>fs := host_writes e (fs s)\<rparr>"

text \<open>
  Modelled from the spec: \<^verbatim>\<open>waitForIpcMessage\<close> of \<^verbatim>\<open>utils.ts\<close>. It polls at a
  fixed interval until a message file exists, which it removes and returns (the
  earliest one, the rest stay), or the sentinel exists, for which it returns null;
  an observed sentinel is not valid for a later wait. Pending messages are looked at
  before the sentinel. \<open>poll_inbox\<close> is one look at the directory, \<open>wait_events\<close> the
  looks at each firing of the timer while the host goes on writing; \<open>StillWaiting\<close>
  stands for a wait that outlasts the recorded events.
\<close>

datatype wait_result = NextMessage string | CloseSignal | StillWaiting

definition poll_inbox :: "world \<Rightarrow> (wait_result \<times> world) option" where
  "poll_inbox w =
     (case inbox w of
        m # rest \<Rightarrow> Some (NextMessage m, w\<lparr>inbox := rest\<rparr>)
      | [] \<Rightarrow> if sentinel w then Some (CloseSignal, w\<lparr>sentinel := False\<rparr>) else None)"

fun wait_events :: "event list \<Rightarrow> world \<Rightarrow> wait_result \<times> world" where
  "wait_events [] w = (StillWaiting, w)"
| "wait_events (TimerTick # es) w =
     (case poll_inbox w of Some r \<Rightarrow> r | None \<Rightarrow> wait_events es w)"
| "wait_events (e # es) w = wait_events es (host_writes e w)"

definition waitForIpcMessage :: "event list \<Rightarrow> sys \<Rightarrow> wait_result \<times> sys" where
  "waitForIpcMessage es s =
     (let (r, w) = (case poll_inbox (fs s) of Some r \<Rightarrow> r | None \<Rightarrow> wait_events es (fs s))
      in (r, s\<lparr>fs := w\<rparr>))"

section \<open>The outbound-command sanitation hook (claude-driver.ts)\<close>

text \<open>
  \<^verbatim>\<open>tool_input\<close> is an object; only its \<^verbatim>\<open>command\<close> field is read, as a string.
  The hook returns \<^verbatim>\<open>{}\<close> (\<open>NoChange\<close>) or a \<^verbatim>\<open>hookSpecificOutput\<close> for the event
  \<^verbatim>\<open>PreToolUse\<close> that carries the updated input.
\<close>

record PreToolUseHookInput =
  tool_input :: "(string \<rightharpoonup> string) option"

datatype hook_output = NoChange | UpdatedInput "string \<rightharpoonup> string"

definition SECRET_ENV_VARS :: "string list" where
  "SECRET_ENV_VARS = [''ANTHROPIC_API_KEY'', ''CLAUDE_CODE_OAUTH_TOKEN'']"

definition unsetPrefix :: string where
  "unsetPrefix = ''unset '' @ join '' '' SECRET_ENV_VARS @ '' 2>/dev/null; ''"

definition createSanitizeBashHook :: "PreToolUseHookInput \<Rightarrow> hook_output" where
  "createSanitizeBashHook preInput =
     (case tool_input preInput of
        None \<Rightarrow> NoChange
      | Some ti \<Rightarrow>
          (let command = ti ''command'' in
           if \<not> truthy command then NoChange
           else UpdatedInput (ti(''command'' \<mapsto> unsetPrefix @ the command))))"

section \<open>MessageStream (claude-driver.ts)\<close>

text \<open>
  An entry of the queue is an \<^verbatim>\<open>SDKUserMessage\<close>; its type, role, parent tool use
  and session id are constants, so an entry is its content.

  The async generator is a coroutine. \<open>gen_pc\<close> is where it stands: \<open>Ready\<close> before
  its first step and while suspended at \<^verbatim>\<open>yield\<close>, \<open>Awaiting\<close> while suspended at
  \<^verbatim>\<open>await\<close> on an unresolved promise, \<open>Woken\<close> once that promise is resolved and the
  continuation has not run yet, \<open>Finished\<close> after \<^verbatim>\<open>return\<close>. The field
  \<open>waiting\<close> says that \<^verbatim>\<open>this.waiting\<close> holds a resolver. \<open>yielded\<close> records the
  values handed to the consumer so far.
\<close>

datatype SDKUserMessage = UserMessage string

datatype gen_pc = Ready | Awaiting | Woken | Finished

record MessageStream =
  queue :: "SDKUserMessage list"
  waiting :: bool
  isDone :: bool
  pc :: gen_pc
  yielded :: "SDKUserMessage list"

definition new_MessageStream :: MessageStream where
  "new_MessageStream = \<lparr>queue = [], waiting = False, isDone = False, pc = Ready, yielded = []\<rparr>"

text \<open>\<^verbatim>\<open>this.waiting?.()\<close>: resolving a promise a second time does nothing.\<close>

definition call_waiting :: "MessageStream \<Rightarrow> MessageStream" where
  "call_waiting m = (if waiting m \<and> pc m = Awaiting then m\<lparr>pc := Woken\<rparr> else m)"

definition push :: "string \<Rightarrow> MessageStream \<Rightarrow> MessageStream" where
  "push text m = call_waiting (m\<lparr>queue := queue m @ [UserMessage text]\<rparr>)"

definition stream_end :: "MessageStream \<Rightarrow> MessageStream" where
  "stream_end m = call_waiting (m\<lparr>isDone := True\<rparr>)"

text \<open>
  The generator body from the head of its outer loop to the next suspension: it
  yields the first queued entry, or returns when \<open>isDone\<close> (the field \<^verbatim>\<open>done\<close>) is set, or stores a resolver
  and awaits.
\<close>

definition gen_run :: "MessageStream \<Rightarrow> MessageStream" where
  "gen_run m =
     (case queue m of
        x # rest \<Rightarrow> m\<lparr>queue := rest, yielded := yielded m @ [x], pc := Ready\<rparr>
      | [] \<Rightarrow> if isDone m then m\<lparr>pc := Finished\<rparr>
              else m\<lparr>waiting := True, pc := Awaiting\<rparr>)"

text \<open>
  \<open>stream_next\<close>: the consumer asks for the next entry; it asks again only after it got
  an answer. \<open>stream_resume\<close>: the continuation after \<^verbatim>\<open>await\<close> runs, clears
  \<^verbatim>\<open>this.waiting\<close> and re-enters the loop.
\<close>

definition stream_next :: "MessageStream \<Rightarrow> MessageStream" where
  "stream_next m = (if pc m = Ready then gen_run m else m)"

definition stream_resume :: "MessageStream \<Rightarrow> MessageStream" where
  "stream_resume m = (if pc m = Woken then gen_run (m\<lparr>waiting := False\<rparr>) else m)"

datatype stream_op = Push string | End | Next | Resume

fun stream_step :: "stream_op \<Rightarrow> MessageStream \<Rightarrow> MessageStream" where
  "stream_step (Push t) m = push t m"
| "stream_step End m = stream_end m"
| "stream_step Next m = stream_next m"
| "stream_step Resume m = stream_resume m"

fun stream_run :: "stream_op list \<Rightarrow> MessageStream \<Rightarrow> MessageStream" where
  "stream_run [] m = m"
| "stream_run (x # xs) m = stream_run xs (stream_step x m)"

text \<open>The texts pushed by a sequence of operations, in order.\<close>

fun pushed :: "stream_op list \<Rightarrow> SDKUserMessage list" where
  "pushed [] = []"
| "pushed (Push t # xs) = UserMessage t # pushed xs"
| "pushed (x # xs) = pushed xs"

text \<open>The consumer keeps pulling: each round lets a woken generator continue and asks once.\<close>

fun pulls :: "nat \<Rightarrow> MessageStream \<Rightarrow> MessageStream" where
  "pulls 0 m = m"
| "pulls (Suc n) m = pulls n (stream_next (stream_resume m))"

section \<open>Driver invocations\<close>

text \<open>
  A call of \<^verbatim>\<open>driver.run\<close> resolves with a result, raises, or is still in flight
  when the recorded events end.
\<close>

datatype 'a outcome = Resolved 'a | Threw string | Pending

subsection \<open>The external-process backend (opencode-driver.ts)\<close>

text \<open>
  The handlers of the spawned process, with \<^verbatim>\<open>stdout\<close> and \<^verbatim>\<open>stderr\<close> the texts
  captured so far. The arguments and the environment of \<^verbatim>\<open>spawn\<close> reach no
  handler; the child is the events it raises. The promise is settled by the first
  \<^verbatim>\<open>close\<close> or \<^verbatim>\<open>error\<close> event, where the invocation ends.
\<close>

definition on_close :: "string option \<Rightarrow> int option \<Rightarrow> string \<Rightarrow> string \<Rightarrow> sys \<Rightarrow> QueryResult \<times> sys" where
  "on_close sid code stdout stderr s =
     (let newSessionId' = sid;
          s1 = writeOutput
                 \<lparr>out_status = (if code = Some 0 then Success else Error),
                  out_result = or_null (Some stdout),
                  out_newSessionId = newSessionId',
                  out_error = (if code \<noteq> Some 0 then Some stderr else None)\<rparr> s
      in (\<lparr>newSessionId = newSessionId', lastAssistantUuid = None, closedDuringQuery = False\<rparr>, s1))"

definition on_error :: "string \<Rightarrow> sys \<Rightarrow> QueryResult \<times> sys" where
  "on_error msg s =
     (let s1 = writeOutput
                 \<lparr>out_status = Error, out_result = None,
                  out_newSessionId = None, out_error = Some msg\<rparr> s
      in (\<lparr>newSessionId = None, lastAssistantUuid = None, closedDuringQuery = False\<rparr>, s1))"

fun opencode_events ::
  "string option \<Rightarrow> event list \<Rightarrow> string \<Rightarrow> string \<Rightarrow> sys \<Rightarrow> QueryResult outcome \<times> sys" where
  "opencode_events sid [] stdout stderr s = (Pending, s)"
| "opencode_events sid (ProcStdout d # es) stdout stderr s =
     opencode_events sid es (stdout @ d) stderr s"
| "opencode_events sid (ProcStderr d # es) stdout stderr s =
     opencode_events sid es stdout (stderr @ d) s"
| "opencode_events sid (ProcClose code # es) stdout stderr s =
     (let (qr, s1) = on_close sid code stdout stderr s in (Resolved qr, s1))"
| "opencode_events sid (ProcError msg # es) stdout stderr s =
     (let (qr, s1) = on_error msg s in (Resolved qr, s1))"
| "opencode_events sid (e # es) stdout stderr s =
     opencode_events sid es stdout stderr (env_step e s)"

definition OpenCodeDriver_run ::
  "string \<Rightarrow> string option \<Rightarrow> string option \<Rightarrow> event list \<Rightarrow> sys \<Rightarrow> QueryResult outcome \<times> sys" where
  "OpenCodeDriver_run promptText sid resumeAt es s = opencode_events sid es [] [] s"

subsection \<open>The streaming backend (claude-driver.ts)\<close>

text \<open>
  The local variables of \<^verbatim>\<open>ClaudeDriver.run\<close> that outlive a handler. The options
  handed to \<^verbatim>\<open>query\<close> (directories, system prompt, tools, hooks) are read by the
  SDK alone; the SDK is the events it raises.
\<close>

record claude_state =
  stream :: MessageStream
  ipcPolling :: bool
  closed :: bool
  newSid :: "string option"
  lastUuid :: "string option"

fun push_all :: "string list \<Rightarrow> MessageStream \<Rightarrow> MessageStream" where
  "push_all [] m = m"
| "push_all (t # ts) m = push_all ts (push t m)"

text \<open>
  One firing of the timer. The continuation of a woken generator runs before the
  next event, so it is run here.
\<close>

definition pollIpcDuringQuery :: "claude_state \<Rightarrow> sys \<Rightarrow> claude_state \<times> sys" where
  "pollIpcDuringQuery c s =
     (if \<not> ipcPolling c then (c, s)
      else if shouldClose (fs s)
      then (c\<lparr>closed := True, stream := stream_resume (stream_end (stream c)),
               ipcPolling := False\<rparr>, s)
      else (let (messages, w) = drainIpcInput (fs s)
            in (c\<lparr>stream := stream_resume (push_all messages (stream c))\<rparr>, s\<lparr>fs := w\<rparr>)))"

text \<open>The body of the \<^verbatim>\<open>for await\<close> loop for one message of the SDK.\<close>

definition on_message :: "sdk_message \<Rightarrow> claude_state \<Rightarrow> sys \<Rightarrow> claude_state \<times> sys" where
  "on_message msg c s =
     (case msg of
        AssistantMsg uuid \<Rightarrow>
          (case uuid of None \<Rightarrow> (c, s) | Some u \<Rightarrow> (c\<lparr>lastUuid := Some u\<rparr>, s))
      | SystemMsg subtype session_id \<Rightarrow>
          (if subtype = ''init'' then (c\<lparr>newSid := Some session_id\<rparr>, s) else (c, s))
      | ResultMsg textResult \<Rightarrow>
          (c, writeOutput \<lparr>out_status = Success, out_result = or_null textResult,
                          out_newSessionId = newSid c, out_error = None\<rparr> s)
      | OtherMsg t \<Rightarrow> (c, s))"

fun claude_events :: "event list \<Rightarrow> claude_state \<Rightarrow> sys \<Rightarrow> QueryResult outcome \<times> sys" where
  "claude_events [] c s = (Pending, s)"
| "claude_events (TimerTick # es) c s =
     (let (c1, s1) = pollIpcDuringQuery c s in claude_events es c1 s1)"
| "claude_events (SdkEmits msg # es) c s =
     (let (c1, s1) = on_message msg c s in claude_events es c1 s1)"
| "claude_events (SdkPulls # es) c s =
     claude_events es (c\<lparr>stream := stream_next (stream c)\<rparr>) s"
| "claude_events (SdkDone # es) c s =
     (Resolved \<lparr>newSessionId = newSid c, lastAssistantUuid = lastUuid c,
                closedDuringQuery = closed c\<rparr>, s)"
| "claude_events (SdkThrows msg # es) c s = (Threw msg, s)"
| "claude_events (e # es) c s = claude_events es c (env_step e s)"

definition ClaudeDriver_run ::
  "string \<Rightarrow> string option \<Rightarrow> string option \<Rightarrow> event list \<Rightarrow> sys \<Rightarrow> QueryResult outcome \<times> sys" where
  "ClaudeDriver_run promptText sid resumeAt es s =
     claude_events es
       \<lparr>stream = push promptText new_MessageStream, ipcPolling = True, closed = False,
        newSid = None, lastUuid = None\<rparr> s"

section \<open>The query loop (index.ts)\<close>

datatype driver = OpenCodeDriver | ClaudeDriver

definition driver_run ::
  "driver \<Rightarrow> string \<Rightarrow> string option \<Rightarrow> string option \<Rightarrow> event list \<Rightarrow> sys \<Rightarrow> QueryResult outcome \<times> sys" where
  "driver_run d =
     (case d of OpenCodeDriver \<Rightarrow> OpenCodeDriver_run | ClaudeDriver \<Rightarrow> ClaudeDriver_run)"

text \<open>
  The variables \<^verbatim>\<open>prompt\<close>, \<^verbatim>\<open>sessionId\<close> and \<^verbatim>\<open>resumeAt\<close> of \<^verbatim>\<open>main\<close>.
\<close>

record loop_state =
  cur_prompt :: string
  cur_sessionId :: "string option"
  cur_resumeAt :: "string option"

text \<open>
  What the environment does during one turn of the loop: the events while the
  driver runs, then the events while the runner waits for the next message.
\<close>

record turn =
  during_run :: "event list"
  during_wait :: "event list"

text \<open>
  How the process stands when the recorded turns end: it left through
  \<^verbatim>\<open>process.exit\<close>, it left the loop through \<^verbatim>\<open>break\<close>, a driver invocation is in
  flight, or it is blocked in \<^verbatim>\<open>waitForIpcMessage\<close>.
\<close>

datatype proc_status = Exited nat | Terminated | Running | AwaitingNext

definition next_sessionId :: "QueryResult \<Rightarrow> string option \<Rightarrow> string option" where
  "next_sessionId qr sid = (if truthy (newSessionId qr) then newSessionId qr else sid)"

definition next_resumeAt :: "QueryResult \<Rightarrow> string option \<Rightarrow> string option" where
  "next_resumeAt qr r = (if truthy (lastAssistantUuid qr) then lastAssistantUuid qr else r)"

definition fatal :: "string option \<Rightarrow> string \<Rightarrow> sys \<Rightarrow> sys" where
  "fatal sid errorMessage s =
     emit (ProcessExit 1)
       (writeOutput \<lparr>out_status = Error, out_result = None,
                     out_newSessionId = sid, out_error = Some errorMessage\<rparr> s)"

fun query_loop :: "driver \<Rightarrow> loop_state \<Rightarrow> turn list \<Rightarrow> sys \<Rightarrow> proc_status \<times> sys" where
  "query_loop d st [] s =
     (Running, emit (RunCall (cur_prompt st) (cur_sessionId st) (cur_resumeAt st)) s)"
| "query_loop d st (t # ts) s =
     (case driver_run d (cur_prompt st) (cur_sessionId st) (cur_resumeAt st) (during_run t)
             (emit (RunCall (cur_prompt st) (cur_sessionId st) (cur_resumeAt st)) s) of
        (Pending, s1) \<Rightarrow> (Running, s1)
      | (Threw errorMessage, s1) \<Rightarrow> (Exited 1, fatal (cur_sessionId st) errorMessage s1)
      | (Resolved queryResult, s1) \<Rightarrow>
          (let s2 = emit (RunReturn queryResult) s1;
               sid = next_sessionId queryResult (cur_sessionId st);
               resumeAt = next_resumeAt queryResult (cur_resumeAt st)
           in if closedDuringQuery queryResult then (Terminated, s2)
              else
                (case waitForIpcMessage (during_wait t)
                        (emit WaitCall
                           (writeOutput \<lparr>out_status = Success, out_result = None,
                                         out_newSessionId = sid, out_error = None\<rparr> s2)) of
                   (StillWaiting, s3) \<Rightarrow> (AwaitingNext, s3)
                 | (CloseSignal, s3) \<Rightarrow> (Terminated, s3)
                 | (NextMessage nextMessage, s3) \<Rightarrow>
                     query_loop d
                       \<lparr>cur_prompt = nextMessage, cur_sessionId = sid, cur_resumeAt = resumeAt\<rparr>
                       ts s3)))"

text \<open>
  The outcome of reading and parsing the standard input: \<^verbatim>\<open>readStdin\<close> or
  \<^verbatim>\<open>JSON.parse\<close> raised with a message, or gave a document of the declared shape.
\<close>

datatype stdin_outcome = Malformed string | Document ContainerInput

definition scheduled_banner :: string where
  "scheduled_banner =
     ''[SCHEDULED TASK - The following message was sent automatically and is not coming directly from the user or group.]''
     @ [newline, newline]"

definition initial_prompt :: "ContainerInput \<Rightarrow> string list \<Rightarrow> string" where
  "initial_prompt containerInput pending =
     (let prompt0 = (if isScheduledTask containerInput = Some True
                     then scheduled_banner @ prompt containerInput
                     else prompt containerInput)
      in if length pending > 0 then prompt0 @ [newline] @ join [newline] pending else prompt0)"

definition select_driver :: "ContainerInput \<Rightarrow> driver" where
  "select_driver containerInput =
     (let agent = (if truthy (agentType containerInput)
                   then the (agentType containerInput) else ''claude'')
      in if agent = ''opencode'' then OpenCodeDriver else ClaudeDriver)"

text \<open>
  \<^verbatim>\<open>main\<close>. Removing a file that is not there raises and the exception is dropped,
  so both \<^verbatim>\<open>unlinkSync\<close> calls leave the file absent. The merged environment and
  the path of the tool bridge go to the driver's constructor and on to
  \<^verbatim>\<open>spawn\<close> and \<^verbatim>\<open>query\<close> only.
\<close>

definition main :: "stdin_outcome \<Rightarrow> world \<Rightarrow> turn list \<Rightarrow> proc_status \<times> sys" where
  "main input w turns =
     (case input of
        Malformed msg \<Rightarrow>
          (Exited 1,
           emit (ProcessExit 1)
             (writeOutput \<lparr>out_status = Error, out_result = None, out_newSessionId = None,
                           out_error = Some (''Failed to parse input: '' @ msg)\<rparr>
                \<lparr>fs = w, trace = []\<rparr>))
      | Document containerInput \<Rightarrow>
          (let w1 = w\<lparr>tmp_input := False\<rparr>;
               sid = sessionId containerInput;
               w2 = w1\<lparr>sentinel := False\<rparr>;
               d = select_driver containerInput;
               (pending, w3) = drainIpcInput w2
           in query_loop d
                \<lparr>cur_prompt = initial_prompt containerInput pending,
                 cur_sessionId = sid, cur_resumeAt = None\<rparr>
                turns \<lparr>fs = w3, trace = []\<rparr>))"

section \<open>Notions used to state the properties\<close>

text \<open>
  An event that settles the promise of the external-process backend, and the text
  a sequence of events writes to the two pipes of the child.
\<close>

fun settles :: "event \<Rightarrow> bool" where
  "settles (ProcClose code) = True"
| "settles (ProcError msg) = True"
| "settles e = False"

fun captured_stdout :: "event list \<Rightarrow> string" where
  "captured_stdout [] = []"
| "captured_stdout (ProcStdout d # es) = d @ captured_stdout es"
| "captured_stdout (e # es) = captured_stdout es"

fun captured_stderr :: "event list \<Rightarrow> string" where
  "captured_stderr [] = []"
| "captured_stderr (ProcStderr d # es) = d @ captured_stderr es"
| "captured_stderr (e # es) = captured_stderr es"

text \<open>
  An event that ends the \<^verbatim>\<open>for await\<close> loop of the streaming backend.
\<close>

fun sdk_settles :: "event \<Rightarrow> bool" where
  "sdk_settles SdkDone = True"
| "sdk_settles (SdkThrows msg) = True"
| "sdk_settles e = False"

text \<open>
  Read off a trace: the session ids handed to \<^verbatim>\<open>driver.run\<close>, call by call, and
  the values the calls resolved with. \<open>chain a cs qs\<close>: starting from the session id
  \<open>a\<close> of one call, each later session id in \<open>cs\<close> is what the loop makes of the
  previous one and the result the previous call resolved with.
\<close>

fun call_sessions :: "action list \<Rightarrow> string option list" where
  "call_sessions [] = []"
| "call_sessions (RunCall p sid r # as) = sid # call_sessions as"
| "call_sessions (a # as) = call_sessions as"

fun returns :: "action list \<Rightarrow> QueryResult list" where
  "returns [] = []"
| "returns (RunReturn qr # as) = qr # returns as"
| "returns (a # as) = returns as"

fun chain :: "string option \<Rightarrow> string option list \<Rightarrow> QueryResult list \<Rightarrow> bool" where
  "chain a [] qs = True"
| "chain a (b # cs) [] = False"
| "chain a (b # cs) (q # qs) = (b = next_sessionId q a \<and> chain b cs qs)"

text \<open>
  Two invariants of the message stream. \<open>stream_inv\<close>: a generator suspended at
  \<^verbatim>\<open>await\<close> has stored its resolver and saw an empty queue and no end mark, and a
  generator that returned saw the end mark. \<open>ahead P m\<close>: the end mark is set, and
  the entries \<open>P\<close> were handed over already or will be before the generator returns.
\<close>

definition stream_inv :: "MessageStream \<Rightarrow> bool" where
  "stream_inv m =
     ((pc m \<noteq> Awaiting \<or> (waiting m \<and> queue m = [] \<and> \<not> isDone m))
      \<and> (pc m \<noteq> Finished \<or> isDone m))"

definition ahead :: "SDKUserMessage list \<Rightarrow> MessageStream \<Rightarrow> bool" where
  "ahead P m =
     (isDone m \<and> pc m \<noteq> Awaiting
      \<and> (prefix P (yielded m) \<or> (pc m \<noteq> Finished \<and> prefix P (yielded m @ queue m))))"

section \<open>The trace only grows\<close>

lemma trace_emit: "trace (emit a s) = trace s @ [a]"
  by (simp add: emit_def)

lemma fs_emit: "fs (emit a s) = fs s"
  by (simp add: emit_def)

lemma trace_writeOutput: "trace (writeOutput out s) = trace s @ [WriteOutput out]"
  by (simp add: writeOutput_def trace_emit)

lemma fs_writeOutput: "fs (writeOutput out s) = fs s"
  by (simp add: writeOutput_def fs_emit)

lemma trace_env_step: "trace (env_step e s) = trace s"
  by (simp add: env_step_def)

lemma newline_join: "pending \<noteq> [] \<Longrightarrow> [c] @ join [c] pending = concat (map ((#) c) pending)"
  by (induction "[c]" pending rule: join.induct) auto

lemma initial_prompt_lines:
  "initial_prompt ci pending =
     (if isScheduledTask ci = Some True then scheduled_banner @ prompt ci else prompt ci)
     @ concat (map ((#) newline) pending)"
proof (cases pending)
  case Nil
  then show ?thesis by (simp add: initial_prompt_def)
next
  case (Cons m ms)
  then have "[newline] @ join [newline] pending = concat (map ((#) newline) pending)"
    by (intro newline_join) simp
  with Cons show ?thesis by (simp add: initial_prompt_def Let_def)
qed

lemma trace_waitForIpcMessage: "trace (snd (waitForIpcMessage es s)) = trace s"
  by (simp add: waitForIpcMessage_def split: option.splits prod.splits)

lemma opencode_events_extends:
  "prefix (trace s) (trace (snd (opencode_events sid es out err s)))"
proof (induction sid es out err s rule: opencode_events.induct)
qed (auto simp: on_close_def on_error_def trace_writeOutput trace_env_step Let_def)

lemma claude_events_extends:
  "prefix (trace s) (trace (snd (claude_events es c s)))"
proof (induction es c s rule: claude_events.induct)
  case (2 es c s)
  then show ?case
    by (auto simp: pollIpcDuringQuery_def drainIpcInput_def Let_def split: if_splits prod.splits)
next
  case (3 msg es c s)
  obtain c1 s1 where m: "on_message msg c s = (c1, s1)" by force
  then have "prefix (trace s) (trace s1)"
    by (auto simp: on_message_def trace_writeOutput split: sdk_message.splits option.splits if_splits)
  with 3 m show ?case by (auto intro: prefix_order.trans)
qed (auto simp: trace_env_step)

lemma driver_run_extends:
  "prefix (trace s) (trace (snd (driver_run d p sid r es s)))"
  by (cases d) (simp_all add: driver_run_def OpenCodeDriver_run_def ClaudeDriver_run_def
      opencode_events_extends claude_events_extends)

lemma query_loop_first_call:
  "prefix (trace s @ [RunCall (cur_prompt st) (cur_sessionId st) (cur_resumeAt st)])
     (trace (snd (query_loop d st ts s)))"
proof (induction ts arbitrary: st s)
  case Nil
  then show ?case by (simp add: trace_emit)
next
  case (Cons t ts)
  let ?s0 = "emit (RunCall (cur_prompt st) (cur_sessionId st) (cur_resumeAt st)) s"
  obtain r s1 where run: "driver_run d (cur_prompt st) (cur_sessionId st) (cur_resumeAt st) (during_run t) ?s0 = (r, s1)"
    by force
  have p1: "prefix (trace ?s0) (trace s1)"
    using driver_run_extends[of ?s0 d "cur_prompt st" "cur_sessionId st" "cur_resumeAt st" "during_run t"] run
    by simp
  show ?case
  proof (cases r)
    case Pending
    with run p1 show ?thesis by (simp add: trace_emit)
  next
    case (Threw e)
    with run p1 show ?thesis
      by (auto simp: trace_emit fatal_def trace_writeOutput intro: prefix_order.trans)
  next
    case (Resolved qr)
    let ?sid = "next_sessionId qr (cur_sessionId st)"
    let ?s2 = "emit (RunReturn qr) s1"
    let ?s2w = "emit WaitCall (writeOutput \<lparr>out_status = Success, out_result = None,
                                         out_newSessionId = ?sid, out_error = None\<rparr> ?s2)"
    have p2: "prefix (trace ?s0) (trace ?s2w)"
      using p1 by (auto simp: trace_emit trace_writeOutput intro: prefix_order.trans)
    obtain wr s3 where w: "waitForIpcMessage (during_wait t) ?s2w = (wr, s3)" by force
    then have t3: "trace s3 = trace ?s2w"
      using trace_waitForIpcMessage[of "during_wait t" ?s2w] by simp
    show ?thesis
    proof (cases "closedDuringQuery qr")
      case True
      with Resolved run p1 show ?thesis
        by (auto simp: trace_emit Let_def intro: prefix_order.trans)
    next
      case False
      show ?thesis
      proof (cases wr)
        case (NextMessage m)
        let ?st' = "\<lparr>cur_prompt = m, cur_sessionId = ?sid, cur_resumeAt = next_resumeAt qr (cur_resumeAt st)\<rparr>"
        have "prefix (trace s3) (trace (snd (query_loop d ?st' ts s3)))"
          using Cons.IH[of s3 ?st'] by (auto dest: append_prefixD)
        with p2 t3 have "prefix (trace ?s0) (trace (snd (query_loop d ?st' ts s3)))"
          by (auto intro: prefix_order.trans)
        with Resolved run False w NextMessage show ?thesis
          by (simp add: Let_def trace_emit)
      next
        case CloseSignal
        with Resolved run False w p2 t3 show ?thesis
          by (simp add: Let_def trace_emit)
      next
        case StillWaiting
        with Resolved run False w p2 t3 show ?thesis
          by (simp add: Let_def trace_emit)
      qed
    qed
  qed
qed

lemma main_first_call:
  "prefix [RunCall (initial_prompt ci (inbox w)) (sessionId ci) None]
     (trace (snd (main (Document ci) w turns)))"
  using query_loop_first_call[of "\<lparr>fs = w\<lparr>tmp_input := False, sentinel := False, inbox := []\<rparr>, trace = []\<rparr>"
      "\<lparr>cur_prompt = initial_prompt ci (inbox w), cur_sessionId = sessionId ci, cur_resumeAt = None\<rparr>"
      "select_driver ci" turns]
  by (simp add: main_def drainIpcInput_def Let_def)

lemma host_writes_proc [simp]:
  "host_writes (ProcStdout d) w = w" "host_writes (ProcStderr d) w = w"
  "host_writes TimerTick w = w" "host_writes (SdkEmits m) w = w" "host_writes SdkPulls w = w"
  "host_writes SdkDone w = w" "host_writes (SdkThrows e) w = w"
  by (simp_all add: host_writes_def)

lemma opencode_events_prefix:
  "\<forall>e\<in>set pre. \<not> settles e \<Longrightarrow>
   opencode_events sid (pre @ rest) out err s =
     opencode_events sid rest (out @ captured_stdout pre) (err @ captured_stderr pre)
       \<lparr>fs = fold host_writes pre (fs s), trace = trace s\<rparr>"
proof (induction pre arbitrary: out err s)
  case Nil
  then show ?case by (cases s) simp
next
  case (Cons e pre)
  then have pre: "\<forall>e\<in>set pre. \<not> settles e" by simp
  show ?case
  proof (cases e)
    case (ProcStdout d)
    with Cons.IH[OF pre, of "out @ d" err s] show ?thesis by simp
  next
    case (ProcStderr d)
    with Cons.IH[OF pre, of out "err @ d" s] show ?thesis by simp
  next
    case (ProcClose code)
    with Cons.prems show ?thesis by simp
  next
    case (ProcError msg)
    with Cons.prems show ?thesis by simp
  qed (use Cons.IH[OF pre, of out err "env_step e s"] in \<open>simp_all add: env_step_def\<close>)
qed

section \<open>The external-process backend on a non-zero exit code\<close>

text \<open>
  Claim C1, as the code has it. When the spawned process closes with an exit code
  other than zero (or with none, after a signal), the invocation resolves with the
  session id it was given and, before that, writes exactly one record: status
  \<open>Error\<close>, the whole captured standard-error stream as error text, and as result
  the whole captured standard output, null only when nothing was captured
  (\<^verbatim>\<open>stdout || null\<close>).
\<close>

theorem opencode_nonzero_exit_record:
  assumes "\<forall>e\<in>set pre. \<not> settles e" and "code \<noteq> Some 0"
  shows "fst (OpenCodeDriver_run p sid r (pre @ ProcClose code # post) s) =
           Resolved \<lparr>newSessionId = sid, lastAssistantUuid = None, closedDuringQuery = False\<rparr>
       \<and> trace (snd (OpenCodeDriver_run p sid r (pre @ ProcClose code # post) s)) =
           trace s @
           [WriteOutput
              \<lparr>out_status = Error,
               out_result = (if captured_stdout pre = [] then None else Some (captured_stdout pre)),
               out_newSessionId = sid,
               out_error = Some (captured_stderr pre)\<rparr>]"
proof -
  have "opencode_events sid (pre @ ProcClose code # post) [] [] s =
          opencode_events sid (ProcClose code # post) ([] @ captured_stdout pre)
            ([] @ captured_stderr pre) \<lparr>fs = fold host_writes pre (fs s), trace = trace s\<rparr>"
    by (rule opencode_events_prefix[OF assms(1)])
  with assms(2) show ?thesis
    by (simp add: OpenCodeDriver_run_def on_close_def Let_def trace_writeOutput or_null_def truthy_def)
qed

text \<open>The theorem at an invocation that fails with exit code 2 and an empty standard output.\<close>

theorem opencode_nonzero_exit_record_witness:
  "fst (OpenCodeDriver_run ''do it'' (Some ''s7'') None
          [ProcStderr ''fatal: '', HostMessage ''later'', ProcStderr ''no model'', ProcClose (Some 2), TimerTick]
          \<lparr>fs = \<lparr>tmp_input = False, sentinel = False, inbox = []\<rparr>, trace = []\<rparr>) =
     Resolved \<lparr>newSessionId = Some ''s7'', lastAssistantUuid = None, closedDuringQuery = False\<rparr>
   \<and> trace (snd (OpenCodeDriver_run ''do it'' (Some ''s7'') None
          [ProcStderr ''fatal: '', HostMessage ''later'', ProcStderr ''no model'', ProcClose (Some 2), TimerTick]
          \<lparr>fs = \<lparr>tmp_input = False, sentinel = False, inbox = []\<rparr>, trace = []\<rparr>)) =
     [WriteOutput \<lparr>out_status = Error, out_result = None, out_newSessionId = Some ''s7'',
                   out_error = Some ''fatal: no model''\<rparr>]"
  using opencode_nonzero_exit_record
    [of "[ProcStderr ''fatal: '', HostMessage ''later'', ProcStderr ''no model'']" "Some 2"
        "''do it''" "Some ''s7''" None "[TimerTick]"
        "\<lparr>fs = \<lparr>tmp_input = False, sentinel = False, inbox = []\<rparr>, trace = []\<rparr>"]
  by simp

text \<open>
  The result text of the record is not always null: a process that printed
  \<^verbatim>\<open>partial answer\<close> before it failed with exit code 1 has that text as result.
\<close>

theorem opencode_nonzero_exit_result_counterexample:
  "trace (snd (OpenCodeDriver_run ''do it'' None None
          [ProcStdout ''partial answer'', ProcStderr ''boom'', ProcClose (Some 1)]
          \<lparr>fs = \<lparr>tmp_input = False, sentinel = False, inbox = []\<rparr>, trace = []\<rparr>)) =
     [WriteOutput \<lparr>out_status = Error, out_result = Some ''partial answer'',
                   out_newSessionId = None, out_error = Some ''boom''\<rparr>]
   \<and> Some ''partial answer'' \<noteq> (None :: string option)"
  by (simp add: OpenCodeDriver_run_def on_close_def Let_def trace_writeOutput or_null_def truthy_def)

section \<open>The first prompt\<close>

text \<open>
  Claim C2, as the code has it. The first prompt handed to the driver is the
  initial prompt of the document, preceded by the scheduled-task banner when the
  document is flagged as scheduled, followed by every message pending in the inbox
  at startup, in inbox order, each after a line break; the session id of the
  document and no resume marker go with it.
\<close>

theorem first_prompt_drains_pending:
  "prefix
     [RunCall
        ((if isScheduledTask ci = Some True then scheduled_banner @ prompt ci else prompt ci)
         @ concat (map ((#) newline) (inbox w)))
        (sessionId ci) None]
     (trace (snd (main (Document ci) w turns)))"
  using main_first_call[of ci w turns] by (simp add: initial_prompt_lines)

text \<open>The theorem at a document with two pending messages and a stale sentinel.\<close>

theorem first_prompt_drains_pending_witness:
  "prefix [RunCall (''hello'' @ [newline] @ ''m1'' @ [newline] @ ''m2'') (Some ''s0'') None]
     (trace (snd (main
        (Document \<lparr>prompt = ''hello'', sessionId = Some ''s0'', groupFolder = ''g'', chatJid = ''j'',
                   isMain = True, isScheduledTask = None, assistantName = None,
                   agentType = Some ''opencode'', secrets = None\<rparr>)
        \<lparr>tmp_input = True, sentinel = True, inbox = [''m1'', ''m2'']\<rparr>
        [\<lparr>during_run = [ProcClose (Some 0)], during_wait = []\<rparr>])))"
  using first_prompt_drains_pending
      [of "\<lparr>prompt = ''hello'', sessionId = Some ''s0'', groupFolder = ''g'', chatJid = ''j'',
                   isMain = True, isScheduledTask = None, assistantName = None,
                   agentType = Some ''opencode'', secrets = None\<rparr>"
          "\<lparr>tmp_input = True, sentinel = True, inbox = [''m1'', ''m2'']\<rparr>"
          "[\<lparr>during_run = [ProcClose (Some 0)], during_wait = []\<rparr>]"]
  by simp

text \<open>
  For a document flagged as scheduled the first prompt is not the initial prompt
  followed by the pending messages: the banner comes first.
\<close>

theorem first_prompt_counterexample:
  "\<not> prefix
     [RunCall
        (prompt \<lparr>prompt = ''hello'', sessionId = None, groupFolder = ''g'', chatJid = ''j'',
                 isMain = True, isScheduledTask = Some True, assistantName = None,
                 agentType = None, secrets = None\<rparr>
         @ concat (map ((#) newline) (inbox \<lparr>tmp_input = True, sentinel = False, inbox = [''m1'']\<rparr>)))
        None None]
     (trace (snd (main
        (Document \<lparr>prompt = ''hello'', sessionId = None, groupFolder = ''g'', chatJid = ''j'',
                   isMain = True, isScheduledTask = Some True, assistantName = None,
                   agentType = None, secrets = None\<rparr>)
        \<lparr>tmp_input = True, sentinel = False, inbox = [''m1'']\<rparr> [])))"
  by (simp add: main_def drainIpcInput_def select_driver_def truthy_def initial_prompt_def
      scheduled_banner_def trace_emit Let_def)

text \<open>
  Claim C10. The first prompt handed to the driver is \<open>initial_prompt\<close> of the
  document and the pending messages. With the scheduled flag set it is the banner
  line, an empty line, the initial prompt and then the pending messages; with the
  flag absent or false nothing precedes the initial prompt.
\<close>

theorem scheduled_task_banner:
  "prefix [RunCall (initial_prompt ci (inbox w)) (sessionId ci) None]
     (trace (snd (main (Document ci) w turns)))
   \<and> (isScheduledTask ci = Some True \<longrightarrow>
        initial_prompt ci pending =
          ''[SCHEDULED TASK - The following message was sent automatically and is not coming directly from the user or group.]''
          @ [CHR 0x0A, CHR 0x0A] @ prompt ci @ concat (map ((#) (CHR 0x0A)) pending))
   \<and> (isScheduledTask ci \<noteq> Some True \<longrightarrow>
        initial_prompt ci pending = prompt ci @ concat (map ((#) (CHR 0x0A)) pending))"
  using main_first_call[of ci w turns]
  by (simp add: initial_prompt_lines scheduled_banner_def newline_def)

text \<open>The theorem at a flagged document with one pending message and at an unflagged one with two.\<close>

theorem scheduled_task_banner_witness:
  "initial_prompt \<lparr>prompt = ''hello'', sessionId = None, groupFolder = ''g'', chatJid = ''j'',
                   isMain = True, isScheduledTask = Some True, assistantName = None,
                   agentType = None, secrets = None\<rparr> [''m1''] =
     ''[SCHEDULED TASK - The following message was sent automatically and is not coming directly from the user or group.]''
     @ [CHR 0x0A, CHR 0x0A] @ ''hello'' @ [CHR 0x0A] @ ''m1''
   \<and> initial_prompt \<lparr>prompt = ''hello'', sessionId = None, groupFolder = ''g'', chatJid = ''j'',
                   isMain = True, isScheduledTask = Some False, assistantName = None,
                   agentType = None, secrets = None\<rparr> [''m1'', ''m2''] =
     ''hello'' @ [CHR 0x0A] @ ''m1'' @ [CHR 0x0A] @ ''m2''"
  using scheduled_task_banner
      [of "\<lparr>prompt = ''hello'', sessionId = None, groupFolder = ''g'', chatJid = ''j'',
                   isMain = True, isScheduledTask = Some True, assistantName = None,
                   agentType = None, secrets = None\<rparr>"
          "\<lparr>tmp_input = True, sentinel = False, inbox = []\<rparr>" "[]" "[''m1'']"]
    scheduled_task_banner
      [of "\<lparr>prompt = ''hello'', sessionId = None, groupFolder = ''g'', chatJid = ''j'',
                   isMain = True, isScheduledTask = Some False, assistantName = None,
                   agentType = None, secrets = None\<rparr>"
          "\<lparr>tmp_input = True, sentinel = False, inbox = []\<rparr>" "[]" "[''m1'', ''m2'']"]
  by simp

section \<open>The outbound-command sanitation hook\<close>

text \<open>
  Claim C8. For a tool input whose command is a non-empty text, the hook returns
  the same input with the command replaced by the text that unsets
  \<^verbatim>\<open>ANTHROPIC_API_KEY\<close> and \<^verbatim>\<open>CLAUDE_CODE_OAUTH_TOKEN\<close>, followed by the
  original command unchanged.
\<close>

theorem createSanitizeBashHook_unsets_then_runs:
  assumes "tool_input preInput = Some ti" and "ti ''command'' = Some c" and "c \<noteq> []"
  shows "createSanitizeBashHook preInput =
           UpdatedInput
             (ti(''command'' \<mapsto>
                ''unset ANTHROPIC_API_KEY CLAUDE_CODE_OAUTH_TOKEN 2>/dev/null; '' @ c))"
  using assms
  by (simp add: createSanitizeBashHook_def truthy_def unsetPrefix_def SECRET_ENV_VARS_def)

text \<open>The theorem at the command \<^verbatim>\<open>env | sort\<close> with one more field in the tool input.\<close>

theorem createSanitizeBashHook_unsets_then_runs_witness:
  "createSanitizeBashHook \<lparr>tool_input = Some [''timeout'' \<mapsto> ''5000'', ''command'' \<mapsto> ''env | sort'']\<rparr> =
     UpdatedInput [''timeout'' \<mapsto> ''5000'',
        ''command'' \<mapsto> ''unset ANTHROPIC_API_KEY CLAUDE_CODE_OAUTH_TOKEN 2>/dev/null; env | sort'']"
  using createSanitizeBashHook_unsets_then_runs
    [of "\<lparr>tool_input = Some [''timeout'' \<mapsto> ''5000'', ''command'' \<mapsto> ''env | sort'']\<rparr>"
        "[''timeout'' \<mapsto> ''5000'', ''command'' \<mapsto> ''env | sort'']" "''env | sort''"]
  by simp

section \<open>Startup\<close>

text \<open>
  Claim C6. After a document was parsed, the query loop starts in a filesystem
  without the sentinel, whatever was there before; a run that starts with a stale
  sentinel is the run that starts without one, and for any input the status and
  the trace are the same.
\<close>

theorem stale_sentinel_cleared_at_startup:
  "main (Document ci) w turns =
     query_loop (select_driver ci)
       \<lparr>cur_prompt = initial_prompt ci (inbox w), cur_sessionId = sessionId ci, cur_resumeAt = None\<rparr>
       turns \<lparr>fs = \<lparr>tmp_input = False, sentinel = False, inbox = []\<rparr>, trace = []\<rparr>
   \<and> main (Document ci) (w\<lparr>sentinel := True\<rparr>) turns = main (Document ci) (w\<lparr>sentinel := False\<rparr>) turns
   \<and> fst (main input (w\<lparr>sentinel := True\<rparr>) turns) = fst (main input (w\<lparr>sentinel := False\<rparr>) turns)
   \<and> trace (snd (main input (w\<lparr>sentinel := True\<rparr>) turns)) =
       trace (snd (main input (w\<lparr>sentinel := False\<rparr>) turns))"
  by (cases w; cases input) (simp_all add: main_def drainIpcInput_def Let_def trace_emit trace_writeOutput)

text \<open>
  Claim C7 at a standard input that does not parse: the runner reports the error
  and exits, and \<^verbatim>\<open>/tmp/input.json\<close> is still there.
\<close>

theorem parse_failure_keeps_input_file:
  "main (Malformed ''Unexpected end of JSON input'')
        \<lparr>tmp_input = True, sentinel = False, inbox = []\<rparr> [] =
     (Exited 1,
      \<lparr>fs = \<lparr>tmp_input = True, sentinel = False, inbox = []\<rparr>,
       trace = [WriteOutput \<lparr>out_status = Error, out_result = None, out_newSessionId = None,
                  out_error = Some ''Failed to parse input: Unexpected end of JSON input''\<rparr>,
                ProcessExit 1]\<rparr>)"
  by (simp add: main_def writeOutput_def emit_def)

section \<open>The message stream is a queue\<close>

lemma stream_inv_new: "stream_inv new_MessageStream"
  by (simp add: stream_inv_def new_MessageStream_def)

lemma stream_inv_step: "stream_inv m \<Longrightarrow> stream_inv (stream_step x m)"
  by (cases x)
     (auto simp: stream_inv_def push_def stream_end_def call_waiting_def stream_next_def
        stream_resume_def gen_run_def split: list.splits if_splits)

lemma stream_inv_run: "stream_inv m \<Longrightarrow> stream_inv (stream_run ops m)"
  by (induction ops arbitrary: m) (simp_all add: stream_inv_step)

lemma step_conserves:
  "yielded (stream_step x m) @ queue (stream_step x m) = yielded m @ queue m @ pushed [x]"
  by (cases x)
     (auto simp: push_def stream_end_def call_waiting_def stream_next_def
        stream_resume_def gen_run_def split: list.splits)

lemma pushed_Cons: "pushed (x # xs) = pushed [x] @ pushed xs"
  by (cases x) simp_all

lemma run_conserves:
  "yielded (stream_run ops m) @ queue (stream_run ops m) = yielded m @ queue m @ pushed ops"
proof (induction ops arbitrary: m)
  case Nil
  then show ?case by simp
next
  case (Cons x xs)
  have "yielded (stream_run (x # xs) m) @ queue (stream_run (x # xs) m)
          = (yielded (stream_step x m) @ queue (stream_step x m)) @ pushed xs"
    using Cons.IH[of "stream_step x m"] by simp
  also have "\<dots> = yielded m @ queue m @ pushed (x # xs)"
    using step_conserves[of x m] pushed_Cons[of x xs] by simp
  finally show ?case .
qed

lemma stream_run_append: "stream_run (xs @ ys) m = stream_run ys (stream_run xs m)"
  by (induction xs arbitrary: m) simp_all

lemma pushed_append: "pushed (xs @ ys) = pushed xs @ pushed ys"
  by (induction xs rule: pushed.induct) simp_all

lemma pulls_as_run: "pulls n m = stream_run (concat (replicate n [Resume, Next])) m"
  by (induction n arbitrary: m) simp_all

lemma pushed_pull_ops: "pushed (concat (replicate n [Resume, Next])) = []"
  by (induction n) simp_all

lemma pulls_conserves: "yielded (pulls n m) @ queue (pulls n m) = yielded m @ queue m"
  using run_conserves[of "concat (replicate n [Resume, Next])" m]
  by (simp add: pulls_as_run pushed_pull_ops)

lemma pulls_Finished: "pc m = Finished \<Longrightarrow> pulls n m = m"
  by (induction n) (simp_all add: stream_next_def stream_resume_def)

text \<open>One round of the consumer.\<close>

lemma round_shortens:
  assumes "pc m \<noteq> Finished" and "pc m \<noteq> Awaiting \<or> queue m = []"
  shows "length (queue (stream_next (stream_resume m))) \<le> length (queue m) - 1"
  using assms
  by (cases "pc m")
     (auto simp: stream_next_def stream_resume_def gen_run_def split: list.splits)

lemma round_keeps_empty:
  assumes "pc m = Finished \<or> pc m = Awaiting \<longrightarrow> queue m = []"
  shows "pc (stream_next (stream_resume m)) = Finished \<or> pc (stream_next (stream_resume m)) = Awaiting
           \<longrightarrow> queue (stream_next (stream_resume m)) = []"
  using assms
  by (cases "pc m")
     (auto simp: stream_next_def stream_resume_def gen_run_def split: list.splits if_splits)

lemma pulls_deliver:
  assumes "pc m = Finished \<or> pc m = Awaiting \<longrightarrow> queue m = []" and "length (queue m) \<le> n"
  shows "yielded (pulls n m) = yielded m @ queue m"
  using assms
proof (induction n arbitrary: m)
  case 0
  then show ?case by simp
next
  case (Suc n)
  let ?m' = "stream_next (stream_resume m)"
  show ?case
  proof (cases "pc m = Finished")
    case True
    with Suc.prems show ?thesis by (simp add: pulls_Finished del: pulls.simps)
  next
    case False
    have "length (queue ?m') \<le> n"
      using round_shortens[of m] False Suc.prems by auto
    then have "yielded (pulls n ?m') = yielded ?m' @ queue ?m'"
      using Suc.IH[of ?m'] round_keeps_empty[OF Suc.prems(1)] by blast
    also have "\<dots> = yielded m @ queue m"
      using pulls_conserves[of 1 m] by simp
    finally show ?thesis by simp
  qed
qed

lemma round_done:
  assumes "isDone m" and "pc m \<noteq> Awaiting"
  shows "isDone (stream_next (stream_resume m)) \<and> pc (stream_next (stream_resume m)) \<noteq> Awaiting
         \<and> (queue m = [] \<longrightarrow> pc (stream_next (stream_resume m)) = Finished)"
  using assms
  by (cases "pc m")
     (auto simp: stream_next_def stream_resume_def gen_run_def split: list.splits)

lemma pulls_finish:
  assumes "isDone m" and "pc m \<noteq> Awaiting" and "length (queue m) < n"
  shows "pc (pulls n m) = Finished"
  using assms
proof (induction n arbitrary: m)
  case 0
  then show ?case by simp
next
  case (Suc n)
  let ?m' = "stream_next (stream_resume m)"
  note rd = round_done[OF Suc.prems(1,2)]
  show ?case
  proof (cases "pc m = Finished \<or> queue m = []")
    case True
    then have "pc ?m' = Finished"
      using rd by (auto simp: stream_next_def stream_resume_def)
    then show ?thesis by (simp add: pulls_Finished)
  next
    case False
    then have "length (queue ?m') < n"
      using round_shortens[of m] Suc.prems(2,3) by (cases "queue m") auto
    with rd show ?thesis using Suc.IH[of ?m'] by simp
  qed
qed

lemma ahead_step: "ahead P m \<Longrightarrow> ahead P (stream_step x m)"
proof (cases x)
  case (Push t)
  assume "ahead P m"
  then show ?thesis
    using Push prefix_prefix[of P "yielded m @ queue m" "[UserMessage t]"]
    by (auto simp: ahead_def push_def call_waiting_def)
next
  case End
  assume "ahead P m"
  then show ?thesis using End by (auto simp: ahead_def stream_end_def call_waiting_def)
next
  case Next
  assume "ahead P m"
  then show ?thesis using Next
    by (auto simp: ahead_def stream_next_def gen_run_def split: list.splits)
next
  case Resume
  assume "ahead P m"
  then show ?thesis using Resume
    by (auto simp: ahead_def stream_resume_def gen_run_def split: list.splits)
qed

lemma ahead_run: "ahead P m \<Longrightarrow> ahead P (stream_run ops m)"
  by (induction ops arbitrary: m) (simp_all add: ahead_step)

lemma not_done_run: "End \<notin> set ops \<Longrightarrow> isDone (stream_run ops m) = isDone m"
proof (induction ops arbitrary: m)
  case Nil
  then show ?case by simp
next
  case (Cons x xs)
  then have "isDone (stream_step x m) = isDone m"
    by (cases x)
       (auto simp: push_def call_waiting_def stream_next_def stream_resume_def gen_run_def
          split: list.splits)
  with Cons show ?case by simp
qed

lemma not_finished_before_end:
  "End \<notin> set ops \<Longrightarrow> pc (stream_run ops new_MessageStream) \<noteq> Finished"
  using not_done_run[of ops new_MessageStream] stream_inv_run[OF stream_inv_new, of ops]
  by (auto simp: stream_inv_def new_MessageStream_def)

lemma ahead_after_end:
  assumes "End \<notin> set pre"
  shows "ahead (pushed pre) (stream_run (pre @ [End]) new_MessageStream)"
proof -
  let ?m0 = "stream_run pre new_MessageStream"
  have inv: "stream_inv ?m0" by (rule stream_inv_run[OF stream_inv_new])
  have nf: "pc ?m0 \<noteq> Finished" by (rule not_finished_before_end[OF assms])
  have all: "yielded ?m0 @ queue ?m0 = pushed pre"
    using run_conserves[of pre new_MessageStream] by (simp add: new_MessageStream_def)
  show ?thesis
    using inv nf all
    by (auto simp: stream_run_append ahead_def stream_end_def call_waiting_def stream_inv_def)
qed

text \<open>
  Claim C9. At any moment, after any interleaving of pushes, \<open>end\<close>, requests of the
  consumer and resumptions of the generator, the entries handed to the consumer
  followed by the entries still queued are exactly the pushed texts in push order.
  Before \<open>end\<close> is called the generator has not returned. While it has not returned,
  a consumer that keeps asking receives all that was pushed. After the first
  \<open>end\<close>, a consumer that keeps asking reaches the end of the iteration and has
  received everything pushed before \<open>end\<close>, and nothing but pushed texts in push
  order: exactly the texts pushed before \<open>end\<close> when none is pushed after it.
\<close>

theorem MessageStream_fifo:
  "yielded (stream_run ops new_MessageStream) @ queue (stream_run ops new_MessageStream) = pushed ops
   \<and> (End \<notin> set ops \<longrightarrow> pc (stream_run ops new_MessageStream) \<noteq> Finished)
   \<and> (pc (stream_run ops new_MessageStream) \<noteq> Finished
        \<and> length (queue (stream_run ops new_MessageStream)) \<le> n \<longrightarrow>
        yielded (pulls n (stream_run ops new_MessageStream)) = pushed ops)
   \<and> (End \<notin> set pre
        \<and> length (queue (stream_run (pre @ End # post) new_MessageStream)) < k \<longrightarrow>
        pc (pulls k (stream_run (pre @ End # post) new_MessageStream)) = Finished
        \<and> prefix (pushed pre) (yielded (pulls k (stream_run (pre @ End # post) new_MessageStream)))
        \<and> prefix (yielded (pulls k (stream_run (pre @ End # post) new_MessageStream)))
             (pushed (pre @ End # post))
        \<and> (pushed post = [] \<longrightarrow>
             yielded (pulls k (stream_run (pre @ End # post) new_MessageStream)) = pushed pre))"
proof (intro conjI impI)
  let ?m = "stream_run ops new_MessageStream"
  show all: "yielded ?m @ queue ?m = pushed ops"
    using run_conserves[of ops new_MessageStream] by (simp add: new_MessageStream_def)
  show "pc ?m \<noteq> Finished" if "End \<notin> set ops"
    using that by (rule not_finished_before_end)
  show "yielded (pulls n ?m) = pushed ops" if h: "pc ?m \<noteq> Finished \<and> length (queue ?m) \<le> n"
  proof -
    have "stream_inv ?m" by (rule stream_inv_run[OF stream_inv_new])
    with h have "pc ?m = Finished \<or> pc ?m = Awaiting \<longrightarrow> queue ?m = []"
      by (auto simp: stream_inv_def)
    with h have "yielded (pulls n ?m) = yielded ?m @ queue ?m"
      by (intro pulls_deliver) simp_all
    with all show ?thesis by simp
  qed
next
  let ?e = "stream_run (pre @ End # post) new_MessageStream"
  assume h: "End \<notin> set pre \<and> length (queue ?e) < k"
  have e: "?e = stream_run post (stream_run (pre @ [End]) new_MessageStream)"
    using stream_run_append[of "pre @ [End]" post new_MessageStream] by simp
  have ah: "ahead (pushed pre) ?e"
    unfolding e using h by (intro ahead_run ahead_after_end) simp
  have ahp: "ahead (pushed pre) (pulls k ?e)"
    unfolding pulls_as_run by (rule ahead_run[OF ah])
  show fin: "pc (pulls k ?e) = Finished"
    using ah h by (intro pulls_finish) (simp_all add: ahead_def)
  show pre: "prefix (pushed pre) (yielded (pulls k ?e))"
    using ahp fin by (simp add: ahead_def)
  have cons: "yielded (pulls k ?e) @ queue (pulls k ?e) = pushed (pre @ End # post)"
    using pulls_conserves[of k ?e] run_conserves[of "pre @ End # post" new_MessageStream]
    by (simp add: new_MessageStream_def)
  then show "prefix (yielded (pulls k ?e)) (pushed (pre @ End # post))"
    by (metis prefixI)
  show "yielded (pulls k ?e) = pushed pre" if "pushed post = []"
  proof -
    from cons that have "yielded (pulls k ?e) @ queue (pulls k ?e) = pushed pre"
      by (simp add: pushed_append)
    then have "prefix (yielded (pulls k ?e)) (pushed pre)" by (metis prefixI)
    with pre show ?thesis by (simp add: prefix_order.antisym)
  qed
qed

text \<open>
  The theorem at three pushes around two requests, with two rounds of the consumer,
  and at the same operations followed by \<open>end\<close> and a resumption, with three rounds.
\<close>

theorem MessageStream_fifo_witness:
  "yielded (pulls 2 (stream_run [Push ''a'', Next, Next, Push ''b'', Push ''c''] new_MessageStream))
     = [UserMessage ''a'', UserMessage ''b'', UserMessage ''c'']
   \<and> pc (pulls 3 (stream_run ([Push ''a'', Next, Next, Push ''b'', Push ''c''] @ End # [Resume])
                      new_MessageStream)) = Finished
   \<and> yielded (pulls 3 (stream_run ([Push ''a'', Next, Next, Push ''b'', Push ''c''] @ End # [Resume])
                      new_MessageStream))
     = [UserMessage ''a'', UserMessage ''b'', UserMessage ''c'']"
proof -
  have run: "stream_run [Push ''a'', Next, Next, Push ''b'', Push ''c''] new_MessageStream =
          \<lparr>queue = [UserMessage ''b'', UserMessage ''c''], waiting = True, isDone = False,
           pc = Woken, yielded = [UserMessage ''a'']\<rparr>"
    by (simp add: new_MessageStream_def push_def call_waiting_def stream_next_def gen_run_def)
  have run2: "stream_run ([Push ''a'', Next, Next, Push ''b'', Push ''c''] @ End # [Resume]) new_MessageStream =
          \<lparr>queue = [UserMessage ''c''], waiting = False, isDone = True,
           pc = Ready, yielded = [UserMessage ''a'', UserMessage ''b'']\<rparr>"
    by (simp add: new_MessageStream_def push_def call_waiting_def stream_next_def gen_run_def
        stream_end_def stream_resume_def)
  show ?thesis
    using MessageStream_fifo[of "[Push ''a'', Next, Next, Push ''b'', Push ''c'']" 2
        "[Push ''a'', Next, Next, Push ''b'', Push ''c'']" "[Resume]" 3]
    unfolding run run2
    by (simp add: stream_next_def stream_resume_def gen_run_def eval_nat_numeral)
qed

section \<open>Session continuity across invocations\<close>

lemma call_sessions_append: "call_sessions (xs @ ys) = call_sessions xs @ call_sessions ys"
  by (induction xs rule: call_sessions.induct) simp_all

lemma returns_append: "returns (xs @ ys) = returns xs @ returns ys"
  by (induction xs rule: returns.induct) simp_all

lemma opencode_events_calls:
  "call_sessions (trace (snd (opencode_events sid es out err s))) = call_sessions (trace s)
   \<and> returns (trace (snd (opencode_events sid es out err s))) = returns (trace s)"
  by (induction sid es out err s rule: opencode_events.induct)
     (simp_all add: on_close_def on_error_def trace_writeOutput trace_env_step Let_def
        call_sessions_append returns_append)

lemma on_message_calls:
  "call_sessions (trace (snd (on_message msg c s))) = call_sessions (trace s)
   \<and> returns (trace (snd (on_message msg c s))) = returns (trace s)"
  by (auto simp: on_message_def trace_writeOutput call_sessions_append returns_append
      split: sdk_message.splits option.splits)

lemma trace_pollIpcDuringQuery: "trace (snd (pollIpcDuringQuery c s)) = trace s"
  by (simp add: pollIpcDuringQuery_def drainIpcInput_def Let_def)

lemma claude_events_calls:
  "call_sessions (trace (snd (claude_events es c s))) = call_sessions (trace s)
   \<and> returns (trace (snd (claude_events es c s))) = returns (trace s)"
proof (induction es c s rule: claude_events.induct)
  case (2 es c s)
  obtain c1 s1 where p: "pollIpcDuringQuery c s = (c1, s1)" by force
  with 2[of "(c1, s1)" c1 s1] trace_pollIpcDuringQuery[of c s] show ?case by simp
next
  case (3 msg es c s)
  obtain c1 s1 where m: "on_message msg c s = (c1, s1)" by force
  with 3[of "(c1, s1)" c1 s1] on_message_calls[of msg c s] show ?case by simp
qed (simp_all add: trace_env_step)

lemma driver_run_calls:
  "call_sessions (trace (snd (driver_run d p sid r es s))) = call_sessions (trace s)
   \<and> returns (trace (snd (driver_run d p sid r es s))) = returns (trace s)"
  by (cases d)
     (simp_all add: driver_run_def OpenCodeDriver_run_def ClaudeDriver_run_def
        opencode_events_calls claude_events_calls)

lemma query_loop_chain:
  "\<exists>cs qs.
     call_sessions (trace (snd (query_loop d st ts s))) = call_sessions (trace s) @ cur_sessionId st # cs
   \<and> returns (trace (snd (query_loop d st ts s))) = returns (trace s) @ qs
   \<and> chain (cur_sessionId st) cs qs"
proof (induction ts arbitrary: st s)
  case Nil
  show ?case by (simp add: trace_emit call_sessions_append returns_append)
next
  case (Cons t ts)
  let ?s0 = "emit (RunCall (cur_prompt st) (cur_sessionId st) (cur_resumeAt st)) s"
  obtain r s1 where run: "driver_run d (cur_prompt st) (cur_sessionId st) (cur_resumeAt st) (during_run t) ?s0 = (r, s1)"
    by force
  have c1: "call_sessions (trace s1) = call_sessions (trace s) @ [cur_sessionId st]"
    and r1: "returns (trace s1) = returns (trace s)"
    using driver_run_calls[of d "cur_prompt st" "cur_sessionId st" "cur_resumeAt st" "during_run t" ?s0] run
    by (simp_all add: trace_emit call_sessions_append returns_append)
  show ?case
  proof (cases r)
    case Pending
    with run c1 r1 show ?thesis by simp
  next
    case (Threw e)
    with run c1 r1 show ?thesis
      by (simp add: fatal_def trace_emit trace_writeOutput call_sessions_append returns_append)
  next
    case (Resolved qr)
    let ?sid = "next_sessionId qr (cur_sessionId st)"
    let ?s2w = "emit WaitCall (writeOutput \<lparr>out_status = Success, out_result = None,
                   out_newSessionId = ?sid, out_error = None\<rparr> (emit (RunReturn qr) s1))"
    obtain wr s3 where w: "waitForIpcMessage (during_wait t) ?s2w = (wr, s3)" by force
    then have "trace s3 = trace ?s2w"
      using trace_waitForIpcMessage[of "during_wait t" ?s2w] by simp
    then have c3: "call_sessions (trace s3) = call_sessions (trace s) @ [cur_sessionId st]"
      and r3: "returns (trace s3) = returns (trace s) @ [qr]"
      using c1 r1 by (simp_all add: trace_emit trace_writeOutput call_sessions_append returns_append)
    show ?thesis
    proof (cases "closedDuringQuery qr")
      case True
      with Resolved run c1 r1 show ?thesis
        by (simp add: Let_def trace_emit call_sessions_append returns_append)
    next
      case False
      show ?thesis
      proof (cases wr)
        case (NextMessage m)
        let ?st' = "\<lparr>cur_prompt = m, cur_sessionId = ?sid, cur_resumeAt = next_resumeAt qr (cur_resumeAt st)\<rparr>"
        obtain cs qs where
          "call_sessions (trace (snd (query_loop d ?st' ts s3))) = call_sessions (trace s3) @ ?sid # cs"
          "returns (trace (snd (query_loop d ?st' ts s3))) = returns (trace s3) @ qs"
          "chain ?sid cs qs"
          using Cons.IH[of ?st' s3] by auto
        with c3 r3 have
          "call_sessions (trace (snd (query_loop d ?st' ts s3))) = call_sessions (trace s) @ cur_sessionId st # (?sid # cs)
           \<and> returns (trace (snd (query_loop d ?st' ts s3))) = returns (trace s) @ (qr # qs)
           \<and> chain (cur_sessionId st) (?sid # cs) (qr # qs)"
          by simp
        with Resolved run False w NextMessage show ?thesis
          by (simp add: Let_def)
      next
        case CloseSignal
        with Resolved run False w c3 r3 show ?thesis by (simp add: Let_def)
      next
        case StillWaiting
        with Resolved run False w c3 r3 show ?thesis by (simp add: Let_def)
      qed
    qed
  qed
qed

lemma chain_nth:
  "chain a cs qs \<Longrightarrow> Suc i < length (a # cs) \<Longrightarrow>
     i < length qs \<and> (a # cs) ! Suc i = next_sessionId (qs ! i) ((a # cs) ! i)"
proof (induction a cs qs arbitrary: i rule: chain.induct)
  case (3 a b cs q qs)
  then show ?case by (cases i) auto
qed simp_all


lemma main_chain:
  "\<exists>cs qs.
     call_sessions (trace (snd (main (Document ci) w turns))) = sessionId ci # cs
   \<and> returns (trace (snd (main (Document ci) w turns))) = qs
   \<and> chain (sessionId ci) cs qs"
  using query_loop_chain[of "select_driver ci"
      "\<lparr>cur_prompt = initial_prompt ci (inbox w), cur_sessionId = sessionId ci, cur_resumeAt = None\<rparr>"
      turns "\<lparr>fs = w\<lparr>tmp_input := False, sentinel := False, inbox := []\<rparr>, trace = []\<rparr>"]
  by (simp add: main_def drainIpcInput_def Let_def)

text \<open>
  Claim C5, as the code has it. For two consecutive calls of \<^verbatim>\<open>driver.run\<close> in a
  run of \<^verbatim>\<open>main\<close>, the earlier call has resolved, and the session id handed to the
  later call is the \<^verbatim>\<open>newSessionId\<close> the earlier call resolved with when that is a
  non-empty text; when it is absent or the empty text, it is the session id handed
  to the earlier call.
\<close>

theorem session_id_round_trip:
  assumes "Suc i < length (call_sessions (trace (snd (main input w turns))))"
  shows "i < length (returns (trace (snd (main input w turns))))
       \<and> call_sessions (trace (snd (main input w turns))) ! Suc i =
           (case newSessionId (returns (trace (snd (main input w turns))) ! i) of
              None \<Rightarrow> call_sessions (trace (snd (main input w turns))) ! i
            | Some x \<Rightarrow> if x = [] then call_sessions (trace (snd (main input w turns))) ! i
                        else Some x)"
proof (cases input)
  case (Malformed msg)
  with assms show ?thesis
    by (simp add: main_def trace_emit trace_writeOutput)
next
  case (Document ci)
  obtain cs qs where
    c: "call_sessions (trace (snd (main (Document ci) w turns))) = sessionId ci # cs"
    and r: "returns (trace (snd (main (Document ci) w turns))) = qs"
    and ch: "chain (sessionId ci) cs qs"
    using main_chain[of ci w turns] by blast
  from assms Document c have "Suc i < length (sessionId ci # cs)" by simp
  from chain_nth[OF ch this] Document c r show ?thesis
    by (auto simp: next_sessionId_def truthy_def split: option.splits)
qed

text \<open>
  The theorem at a streaming invocation that reports the session \<^verbatim>\<open>s1\<close> after being
  called with \<^verbatim>\<open>s0\<close>, followed by one more message.
\<close>

theorem session_id_round_trip_witness:
  "call_sessions (trace (snd (main
      (Document \<lparr>prompt = ''hi'', sessionId = Some ''s0'', groupFolder = ''g'', chatJid = ''j'',
                 isMain = True, isScheduledTask = None, assistantName = None,
                 agentType = None, secrets = None\<rparr>)
      \<lparr>tmp_input = True, sentinel = False, inbox = []\<rparr>
      [\<lparr>during_run = [SdkEmits (SystemMsg ''init'' ''s1''), SdkDone],
        during_wait = [HostMessage ''more'', TimerTick]\<rparr>]))) ! Suc 0 = Some ''s1''"
proof -
  have t: "trace (snd (main
      (Document \<lparr>prompt = ''hi'', sessionId = Some ''s0'', groupFolder = ''g'', chatJid = ''j'',
                 isMain = True, isScheduledTask = None, assistantName = None,
                 agentType = None, secrets = None\<rparr>)
      \<lparr>tmp_input = True, sentinel = False, inbox = []\<rparr>
      [\<lparr>during_run = [SdkEmits (SystemMsg ''init'' ''s1''), SdkDone],
        during_wait = [HostMessage ''more'', TimerTick]\<rparr>])) =
     [RunCall ''hi'' (Some ''s0'') None,
      RunReturn \<lparr>newSessionId = Some ''s1'', lastAssistantUuid = None, closedDuringQuery = False\<rparr>,
      WriteOutput \<lparr>out_status = Success, out_result = None, out_newSessionId = Some ''s1'',
                   out_error = None\<rparr>,
      WaitCall,
      RunCall ''more'' (Some ''s1'') None]"
    by code_simp
  show ?thesis
    using session_id_round_trip[of 0
      "Document \<lparr>prompt = ''hi'', sessionId = Some ''s0'', groupFolder = ''g'', chatJid = ''j'',
                 isMain = True, isScheduledTask = None, assistantName = None,
                 agentType = None, secrets = None\<rparr>"
      "\<lparr>tmp_input = True, sentinel = False, inbox = []\<rparr>"
      "[\<lparr>during_run = [SdkEmits (SystemMsg ''init'' ''s1''), SdkDone],
        during_wait = [HostMessage ''more'', TimerTick]\<rparr>]"]
    unfolding t by simp
qed

text \<open>
  A \<^verbatim>\<open>newSessionId\<close> that is present is not always handed on: the streaming backend
  reports the empty text as session id, and the next call gets the previous id
  \<^verbatim>\<open>s0\<close>.
\<close>

theorem session_id_round_trip_counterexample:
  "call_sessions (trace (snd (main
      (Document \<lparr>prompt = ''hi'', sessionId = Some ''s0'', groupFolder = ''g'', chatJid = ''j'',
                 isMain = True, isScheduledTask = None, assistantName = None,
                 agentType = None, secrets = None\<rparr>)
      \<lparr>tmp_input = True, sentinel = False, inbox = []\<rparr>
      [\<lparr>during_run = [SdkEmits (SystemMsg ''init'' []), SdkDone],
        during_wait = [HostMessage ''more'', TimerTick]\<rparr>]))) ! Suc 0
   \<noteq> newSessionId (returns (trace (snd (main
      (Document \<lparr>prompt = ''hi'', sessionId = Some ''s0'', groupFolder = ''g'', chatJid = ''j'',
                 isMain = True, isScheduledTask = None, assistantName = None,
                 agentType = None, secrets = None\<rparr>)
      \<lparr>tmp_input = True, sentinel = False, inbox = []\<rparr>
      [\<lparr>during_run = [SdkEmits (SystemMsg ''init'' []), SdkDone],
        during_wait = [HostMessage ''more'', TimerTick]\<rparr>]))) ! 0)
   \<and> newSessionId (returns (trace (snd (main
      (Document \<lparr>prompt = ''hi'', sessionId = Some ''s0'', groupFolder = ''g'', chatJid = ''j'',
                 isMain = True, isScheduledTask = None, assistantName = None,
                 agentType = None, secrets = None\<rparr>)
      \<lparr>tmp_input = True, sentinel = False, inbox = []\<rparr>
      [\<lparr>during_run = [SdkEmits (SystemMsg ''init'' []), SdkDone],
        during_wait = [HostMessage ''more'', TimerTick]\<rparr>]))) ! 0) = Some []"
  by code_simp

section \<open>A spawn failure of the external-process backend\<close>






section \<open>The terminate sentinel during a streaming invocation\<close>

lemma poll_keeps:
  "sentinel (fs (snd (pollIpcDuringQuery c s))) = sentinel (fs s)
   \<and> (closed c \<longrightarrow> closed (fst (pollIpcDuringQuery c s)))
   \<and> (ipcPolling c \<or> closed c \<longrightarrow>
        ipcPolling (fst (pollIpcDuringQuery c s)) \<or> closed (fst (pollIpcDuringQuery c s)))
   \<and> (sentinel (fs s) \<and> (ipcPolling c \<or> closed c) \<longrightarrow> closed (fst (pollIpcDuringQuery c s)))"
  by (simp add: pollIpcDuringQuery_def drainIpcInput_def shouldClose_def Let_def)

lemma on_message_keeps:
  "fs (snd (on_message msg c s)) = fs s
   \<and> closed (fst (on_message msg c s)) = closed c
   \<and> ipcPolling (fst (on_message msg c s)) = ipcPolling c"
  by (simp add: on_message_def fs_writeOutput split: sdk_message.splits option.splits)

lemma closed_sticky:
  "closed c \<Longrightarrow> claude_events es c s = (Resolved qr, s1) \<Longrightarrow> closedDuringQuery qr"
proof (induction es c s rule: claude_events.induct)
  case (2 es c s)
  obtain c1 s' where p: "pollIpcDuringQuery c s = (c1, s')" by force
  with poll_keeps[of c s] "2.prems"(1) have "closed c1" by simp
  with 2 p show ?case by simp
next
  case (3 msg es c s)
  obtain c1 s' where m: "on_message msg c s = (c1, s')" by force
  with on_message_keeps[of msg c s] "3.prems"(1) have "closed c1" by simp
  with 3 m show ?case by simp
qed auto

lemma claude_events_prefix:
  "\<forall>e\<in>set pre. \<not> sdk_settles e \<Longrightarrow>
   \<exists>c' s'. claude_events (pre @ rest) c s = claude_events rest c' s'
     \<and> (sentinel (fs s) \<or> HostSentinel \<in> set pre \<longrightarrow> sentinel (fs s'))
     \<and> (ipcPolling c \<or> closed c \<longrightarrow> ipcPolling c' \<or> closed c')"
proof (induction pre arbitrary: c s)
  case Nil
  show ?case by auto
next
  case (Cons e pre)
  then have pre: "\<forall>e\<in>set pre. \<not> sdk_settles e" by simp
  have step: "\<exists>c1 s1. claude_events ((e # pre) @ rest) c s = claude_events (pre @ rest) c1 s1
     \<and> (sentinel (fs s) \<or> e = HostSentinel \<longrightarrow> sentinel (fs s1))
     \<and> (ipcPolling c \<or> closed c \<longrightarrow> ipcPolling c1 \<or> closed c1)"
  proof (cases e)
    case TimerTick
    obtain c1 s1 where p: "pollIpcDuringQuery c s = (c1, s1)" by force
    with poll_keeps[of c s] TimerTick show ?thesis
      by (intro exI[of _ c1] exI[of _ s1]) auto
  next
    case (SdkEmits msg)
    obtain c1 s1 where m: "on_message msg c s = (c1, s1)" by force
    with on_message_keeps[of msg c s] SdkEmits show ?thesis
      by (intro exI[of _ c1] exI[of _ s1]) auto
  next
    case SdkDone
    with Cons.prems show ?thesis by simp
  next
    case (SdkThrows x)
    with Cons.prems show ?thesis by simp
  next
    case SdkPulls
    then show ?thesis
      by (intro exI[of _ "c\<lparr>stream := stream_next (stream c)\<rparr>"] exI[of _ s]) simp
  qed (rule exI[of _ c], rule exI[of _ "env_step e s"], simp add: env_step_def host_writes_def)+
  then obtain c1 s1 where
    e1: "claude_events ((e # pre) @ rest) c s = claude_events (pre @ rest) c1 s1"
    and e2: "sentinel (fs s) \<or> e = HostSentinel \<longrightarrow> sentinel (fs s1)"
    and e3: "ipcPolling c \<or> closed c \<longrightarrow> ipcPolling c1 \<or> closed c1"
    by blast
  from Cons.IH[OF pre, of c1 s1] obtain c' s' where
    "claude_events (pre @ rest) c1 s1 = claude_events rest c' s'"
    "sentinel (fs s1) \<or> HostSentinel \<in> set pre \<longrightarrow> sentinel (fs s')"
    "ipcPolling c1 \<or> closed c1 \<longrightarrow> ipcPolling c' \<or> closed c'"
    by blast
  with e1 e2 e3 show ?case by (intro exI[of _ c'] exI[of _ s']) auto
qed

text \<open>
  Claim C3, as the code has it. When the timer fires during a streaming invocation
  (before the SDK has finished or raised) and the sentinel is there, written during
  the invocation or before it, then the result the invocation resolves with has
  \<^verbatim>\<open>closedDuringQuery\<close> true, and the query loop ends right there: after the
  invocation the trace gains the resolved value and nothing else, no session-update
  record and no call of \<^verbatim>\<open>waitForIpcMessage\<close>.
\<close>

theorem sentinel_seen_by_poll_terminates_loop:
  assumes "\<forall>e\<in>set pre. \<not> sdk_settles e"
    and "sentinel (fs s) \<or> HostSentinel \<in> set pre"
    and "ClaudeDriver_run (cur_prompt st) (cur_sessionId st) (cur_resumeAt st)
           (pre @ TimerTick # post)
           (emit (RunCall (cur_prompt st) (cur_sessionId st) (cur_resumeAt st)) s) = (Resolved qr, s1)"
  shows "closedDuringQuery qr
       \<and> query_loop ClaudeDriver st
           (\<lparr>during_run = pre @ TimerTick # post, during_wait = dw\<rparr> # ts) s =
           (Terminated, s1\<lparr>trace := trace s1 @ [RunReturn qr]\<rparr>)"
proof -
  let ?s0 = "emit (RunCall (cur_prompt st) (cur_sessionId st) (cur_resumeAt st)) s"
  let ?c0 = "\<lparr>stream = push (cur_prompt st) new_MessageStream, ipcPolling = True, closed = False,
              newSid = None, lastUuid = None\<rparr>"
  obtain c' s' where
    eq: "claude_events (pre @ TimerTick # post) ?c0 ?s0 = claude_events (TimerTick # post) c' s'"
    and sen: "sentinel (fs ?s0) \<or> HostSentinel \<in> set pre \<longrightarrow> sentinel (fs s')"
    and pol: "ipcPolling ?c0 \<or> closed ?c0 \<longrightarrow> ipcPolling c' \<or> closed c'"
    using claude_events_prefix[OF assms(1), of "TimerTick # post" ?c0 ?s0] by blast
  obtain c1 s2 where p: "pollIpcDuringQuery c' s' = (c1, s2)" by force
  have "sentinel (fs s')" using sen assms(2) by (simp add: fs_emit)
  moreover have "ipcPolling c' \<or> closed c'" using pol by simp
  ultimately have "closed c1" using poll_keeps[of c' s'] p by simp
  moreover have "claude_events post c1 s2 = (Resolved qr, s1)"
    using assms(3) eq p by (simp add: ClaudeDriver_run_def)
  ultimately have c: "closedDuringQuery qr" by (rule closed_sticky)
  with assms(3) show ?thesis
    by (simp add: driver_run_def emit_def)
qed

text \<open>
  The theorem at an invocation in which the host writes the sentinel, the timer
  fires, and the SDK delivers one more result and finishes.
\<close>

theorem sentinel_seen_by_poll_terminates_loop_witness:
  "query_loop ClaudeDriver \<lparr>cur_prompt = ''hi'', cur_sessionId = None, cur_resumeAt = None\<rparr>
     (\<lparr>during_run = [SdkEmits (SystemMsg ''init'' ''s1''), HostSentinel] @ TimerTick #
                     [SdkEmits (ResultMsg (Some ''bye'')), SdkDone],
       during_wait = []\<rparr> # [])
     \<lparr>fs = \<lparr>tmp_input = False, sentinel = False, inbox = []\<rparr>, trace = []\<rparr> =
   (Terminated,
    \<lparr>fs = \<lparr>tmp_input = False, sentinel = True, inbox = []\<rparr>,
     trace = [RunCall ''hi'' None None,
              WriteOutput \<lparr>out_status = Success, out_result = Some ''bye'',
                           out_newSessionId = Some ''s1'', out_error = None\<rparr>,
              RunReturn \<lparr>newSessionId = Some ''s1'', lastAssistantUuid = None,
                         closedDuringQuery = True\<rparr>]\<rparr>)"
proof -
  have pre: "\<forall>e\<in>set [SdkEmits (SystemMsg ''init'' ''s1''), HostSentinel]. \<not> sdk_settles e"
    by simp
  have sen: "sentinel (fs \<lparr>fs = \<lparr>tmp_input = False, sentinel = False, inbox = []\<rparr>, trace = []\<rparr>)
             \<or> HostSentinel \<in> set [SdkEmits (SystemMsg ''init'' ''s1''), HostSentinel]"
    by simp
  have run: "ClaudeDriver_run
           (cur_prompt \<lparr>cur_prompt = ''hi'', cur_sessionId = None, cur_resumeAt = None\<rparr>)
           (cur_sessionId \<lparr>cur_prompt = ''hi'', cur_sessionId = None, cur_resumeAt = None\<rparr>)
           (cur_resumeAt \<lparr>cur_prompt = ''hi'', cur_sessionId = None, cur_resumeAt = None\<rparr>)
           ([SdkEmits (SystemMsg ''init'' ''s1''), HostSentinel] @ TimerTick #
              [SdkEmits (ResultMsg (Some ''bye'')), SdkDone])
           (emit (RunCall
              (cur_prompt \<lparr>cur_prompt = ''hi'', cur_sessionId = None, cur_resumeAt = None\<rparr>)
              (cur_sessionId \<lparr>cur_prompt = ''hi'', cur_sessionId = None, cur_resumeAt = None\<rparr>)
              (cur_resumeAt \<lparr>cur_prompt = ''hi'', cur_sessionId = None, cur_resumeAt = None\<rparr>))
              \<lparr>fs = \<lparr>tmp_input = False, sentinel = False, inbox = []\<rparr>, trace = []\<rparr>) =
         (Resolved \<lparr>newSessionId = Some ''s1'', lastAssistantUuid = None, closedDuringQuery = True\<rparr>,
          \<lparr>fs = \<lparr>tmp_input = False, sentinel = True, inbox = []\<rparr>,
           trace = [RunCall ''hi'' None None,
                    WriteOutput \<lparr>out_status = Success, out_result = Some ''bye'',
                                 out_newSessionId = Some ''s1'', out_error = None\<rparr>]\<rparr>)"
    by code_simp
  show ?thesis
    using sentinel_seen_by_poll_terminates_loop[OF pre sen run, of "[]" "[]"] by simp
qed

text \<open>
  A sentinel that appears during an invocation is not seen when the SDK finishes
  before the timer fires: the result has \<^verbatim>\<open>closedDuringQuery\<close> false, and the loop
  writes the session-update record and calls \<^verbatim>\<open>waitForIpcMessage\<close>.
\<close>

theorem sentinel_unseen_counterexample:
  "main (Document \<lparr>prompt = ''hi'', sessionId = None, groupFolder = ''g'', chatJid = ''j'',
                   isMain = True, isScheduledTask = None, assistantName = None,
                   agentType = Some ''claude'', secrets = None\<rparr>)
        \<lparr>tmp_input = True, sentinel = False, inbox = []\<rparr>
        [\<lparr>during_run = [HostSentinel, SdkEmits (ResultMsg (Some ''bye'')), SdkDone],
          during_wait = []\<rparr>] =
     (Terminated,
      \<lparr>fs = \<lparr>tmp_input = False, sentinel = False, inbox = []\<rparr>,
       trace = [RunCall ''hi'' None None,
                WriteOutput \<lparr>out_status = Success, out_result = Some ''bye'',
                             out_newSessionId = None, out_error = None\<rparr>,
                RunReturn \<lparr>newSessionId = None, lastAssistantUuid = None,
                           closedDuringQuery = False\<rparr>,
                WriteOutput \<lparr>out_status = Success, out_result = None,
                             out_newSessionId = None, out_error = None\<rparr>,
                WaitCall]\<rparr>)"
  by code_simp

end
